theory Spec2Isabelle
  imports Complex_Main "HOL-Library.Word" "HOL-Library.AList"
begin

unbundle bit_operations_syntax

section \<open>The IBS-TH1 advertisement pipeline\<close>

text \<open>
  A shallow embedding of the class \<open>IBS_TH1\<close> (the library file of the repository):
  the checksum \<open>getCrc16\<close>, the discovery handler \<open>onDiscover_\<close>, the address
  handshake \<open>connect_\<close> and the persistence class \<open>IBS_TH1.Config\<close>. A name cannot
  end in an underscore here, so the private members \<open>uuid_to_address_\<close>,
  \<open>onDiscover_\<close>, \<open>connect_\<close>, \<open>homeDir_\<close>, \<open>configDir_\<close> and \<open>configPath_\<close>
  are written without it.

  A \<open>Buffer\<close> is a list of bytes. JavaScript's bitwise operators work on 32-bit
  signed integers, so the accumulator of \<open>getCrc16\<close> is a \<open>32 word\<close>, \<open>>>\<close> is the
  sign-propagating shift and the Number that is returned is the signed reading of the
  word.
\<close>

subsection \<open>getCrc16\<close>

type_synonym byte = "8 word"
type_synonym Buffer = "byte list"

text \<open>One pass of the body of \<open>for (let i = 0; i < 8; i++)\<close>.\<close>

definition crc16_shift :: "32 word \<Rightarrow> 32 word" where
  "crc16_shift crc16 =
     (let tmp = crc16 AND 0x1;
          crc16' = signed_drop_bit 1 crc16
      in if tmp \<noteq> 0 then crc16' XOR 0xa001 else crc16')"

text \<open>The inner loop, counting \<open>i\<close> up to 8.\<close>

function crc16_inner :: "nat \<Rightarrow> 32 word \<Rightarrow> 32 word" where
  "crc16_inner i crc16 = (if i < 8 then crc16_inner (i + 1) (crc16_shift crc16) else crc16)"
  by pat_completeness auto
termination
  by (relation "measure (\<lambda>(i, crc16). 8 - i)") auto

declare crc16_inner.simps [simp del]

text \<open>The outer loop \<open>for (let byte of buffer)\<close>.\<close>

fun crc16_outer :: "32 word \<Rightarrow> Buffer \<Rightarrow> 32 word" where
  "crc16_outer crc16 [] = crc16"
| "crc16_outer crc16 (byte # buffer) = crc16_outer (crc16_inner 0 (crc16 XOR ucast byte)) buffer"

definition getCrc16 :: "Buffer \<Rightarrow> int" where
  "getCrc16 buffer = sint (crc16_outer 0xffff buffer)"

text \<open>
  The checksum as the specification words it: a 16-bit unsigned accumulator that starts
  at 0xFFFF; each byte is XORed into its low byte, then eight times it is shifted right
  by one and XORed with 0xA001 when the bit shifted out was 1.
\<close>

definition checksum_round :: "16 word \<Rightarrow> 16 word" where
  "checksum_round acc = (if bit acc 0 then drop_bit 1 acc XOR 0xA001 else drop_bit 1 acc)"

fun checksum_bytes :: "16 word \<Rightarrow> byte list \<Rightarrow> 16 word" where
  "checksum_bytes acc [] = acc"
| "checksum_bytes acc (b # bs) = checksum_bytes ((checksum_round ^^ 8) (acc XOR ucast b)) bs"

definition computeChecksum :: "byte list \<Rightarrow> 16 word" where
  "computeChecksum bs = checksum_bytes 0xFFFF bs"

subsection \<open>Objects, peripherals and readings\<close>

text \<open>
  \<open>uuid_to_address\<close> is a plain object used as a dictionary from scan identifiers to
  \<open>null\<close> or an address string. It is modelled by the list of its own properties in
  insertion order: \<open>k in obj\<close> is membership among the keys, \<open>obj[k]\<close> reads the value
  (\<open>None\<close> stands for \<open>null\<close> and \<open>undefined\<close>, which \<open>== null\<close> does not tell apart),
  \<open>obj[k] = v\<close> is \<open>AList.update\<close> and \<open>delete obj[k]\<close> is \<open>AList.delete\<close>. Scan
  identifiers are the hexadecimal strings noble hands out, so no key is the name of a
  property inherited from \<open>Object.prototype\<close>.
\<close>

type_synonym js_object = "(string \<times> string option) list"

definition js_in :: "string \<Rightarrow> js_object \<Rightarrow> bool" where
  "js_in k obj = (map_of obj k \<noteq> None)"

definition js_get :: "js_object \<Rightarrow> string \<Rightarrow> string option" where
  "js_get obj k = (case map_of obj k of None \<Rightarrow> None | Some v \<Rightarrow> v)"

datatype ('e, 'a) settled = Reject 'e | Resolve 'a

text \<open>
  \<open>IBS_TH1.RealtimeData\<close>. A Number is modelled by the real it denotes: the operands
  of each division below are integers under \<open>2 ^ 16\<close>, and the double that JavaScript
  computes is the one nearest to the quotient here. \<open>date\<close> is the clock reading passed
  to the handler.
\<close>

record RealtimeData =
  address :: string
  uuid :: string
  date :: nat
  probeType :: nat
  temperature :: real
  humidity :: real
  battery :: nat

text \<open>
  A noble peripheral as the library reads it. \<open>address\<close> is \<open>None\<close> while the radio
  has no hardware address for the device.
\<close>

record advertisement =
  localName :: "string option"
  manufacturerData :: "Buffer option"

record peripheral =
  uuid :: string
  address :: "string option"
  advertisement :: advertisement

definition DEVICE_NAME :: string where
  "DEVICE_NAME = ''sps''"

definition SERVICE_UUID :: string where
  "SERVICE_UUID = ''fff0''"

definition UNKNOWN :: nat where
  "UNKNOWN = 0"

definition BUILT_IN :: nat where
  "BUILT_IN = 1"

definition EXTERNAL :: nat where
  "EXTERNAL = 2"

subsection \<open>The platform: file system, paths and JSON\<close>

text \<open>
  The store behind \<open>fs\<close>: the directories that exist and the contents of the files.
  \<open>readFileSync\<close> throws (\<open>None\<close>) when the file is missing; writing replaces the whole
  file.
\<close>

record filesystem =
  dirs :: "string set"
  files :: "string \<rightharpoonup> string"

definition existsSync :: "filesystem \<Rightarrow> string \<Rightarrow> bool" where
  "existsSync fsys p = (p \<in> dirs fsys \<or> files fsys p \<noteq> None)"

definition mkdirSync :: "string \<Rightarrow> filesystem \<Rightarrow> filesystem" where
  "mkdirSync p fsys = fsys\<lparr>dirs := insert p (dirs fsys)\<rparr>"

definition writeFileSync :: "string \<Rightarrow> string \<Rightarrow> filesystem \<Rightarrow> filesystem" where
  "writeFileSync p content fsys = fsys\<lparr>files := (files fsys)(p \<mapsto> content)\<rparr>"

definition readFileSync :: "filesystem \<Rightarrow> string \<Rightarrow> string option" where
  "readFileSync fsys p = files fsys p"

text \<open>
  What Node provides and the library only calls: \<open>os.homedir()\<close>, \<open>path.resolve\<close>,
  \<open>JSON.stringify\<close> and \<open>JSON.parse\<close> (\<open>None\<close> when it throws a SyntaxError).
\<close>

record platform =
  os_homedir :: string
  path_resolve :: "string \<Rightarrow> string \<Rightarrow> string"
  JSON_stringify :: "js_object \<Rightarrow> string"
  JSON_parse :: "string \<Rightarrow> js_object option"

subsection \<open>IBS_TH1.Config\<close>

record Config =
  homeDir :: string
  configDir :: string
  configPath :: string

definition Config_new :: "platform \<Rightarrow> string \<Rightarrow> Config" where
  "Config_new pf configName =
     (let home = os_homedir pf;
          dir = path_resolve pf home ''./.ibs_th1/''
      in \<lparr>homeDir = home, configDir = dir,
          configPath = path_resolve pf dir (''./'' @ configName)\<rparr>)"

definition save :: "platform \<Rightarrow> Config \<Rightarrow> js_object \<Rightarrow> filesystem \<Rightarrow> filesystem" where
  "save pf this data fsys =
     (let fsys' = (if \<not> existsSync fsys (configDir this)
                   then mkdirSync (configDir this) fsys else fsys)
      in writeFileSync (configPath this) (JSON_stringify pf data) fsys')"

text \<open>\<open>load\<close> returns the object and the file system it leaves behind.\<close>

definition load :: "platform \<Rightarrow> Config \<Rightarrow> filesystem \<Rightarrow> js_object \<times> filesystem" where
  "load pf this fsys =
     (case readFileSync fsys (configPath this) of
        None \<Rightarrow> ([], save pf this [] fsys)
      | Some text \<Rightarrow>
          (case JSON_parse pf text of
             None \<Rightarrow> ([], save pf this [] fsys)
           | Some data \<Rightarrow> (data, fsys)))"

subsection \<open>The scan session\<close>

text \<open>
  The instance and the world it acts on: the identity cache, the calls of
  \<open>peripheral.connect\<close> whose callback has not run yet (by scan identifier), the calls
  of \<open>peripheral.disconnect\<close> made so far, and the file system.
\<close>

record session =
  uuid_to_address :: js_object
  connecting :: "string list"
  disconnecting :: "string list"
  fs :: filesystem

text \<open>The constructor loads the cache; no connect is under way.\<close>

definition IBS_TH1_new :: "platform \<Rightarrow> filesystem \<Rightarrow> session" where
  "IBS_TH1_new pf fsys =
     (let (data, fsys') = load pf (Config_new pf ''uuid_to_address'') fsys
      in \<lparr>uuid_to_address = data, connecting = [], disconnecting = [], fs = fsys'\<rparr>)"

text \<open>
  \<open>connect_\<close> up to the call of \<open>peripheral.connect\<close>: the executor of the promise
  runs at once and hands the callback to the radio.
\<close>

definition connect :: "peripheral \<Rightarrow> session \<Rightarrow> session" where
  "connect peripheral this = this\<lparr>connecting := connecting this @ [uuid peripheral]\<rparr>"

text \<open>
  The loop \<open>for (let key in this.uuid_to_address_)\<close> that fills \<open>data\<close>, over the
  keys still to visit.
\<close>

fun collect :: "js_object \<Rightarrow> string list \<Rightarrow> js_object \<Rightarrow> js_object" where
  "collect obj [] data = data"
| "collect obj (key # keys) data =
     collect obj keys
       (if js_get obj key \<noteq> None then AList.update key (js_get obj key) data else data)"

text \<open>
  The callback handed to \<open>peripheral.connect\<close>, run with the error (if any) and the
  peripheral as it is by then. An error object is truthy, the empty string is the one
  falsy scan identifier.
\<close>

definition connect_callback ::
  "platform \<Rightarrow> string option \<Rightarrow> peripheral \<Rightarrow> session \<Rightarrow>
   (string option, peripheral) settled \<times> session" where
  "connect_callback pf err peripheral this =
     (if err \<noteq> None then (Reject (Some ''connect result:''), this)
      else
        let this1 = this\<lparr>disconnecting := disconnecting this @ [uuid peripheral]\<rparr>
        in if err \<noteq> None \<or> uuid peripheral = [] then
             (Reject err,
              this1\<lparr>uuid_to_address := AList.delete (uuid peripheral) (uuid_to_address this1)\<rparr>)
           else
             let this2 = this1\<lparr>uuid_to_address :=
                           AList.update (uuid peripheral) (address peripheral)
                             (uuid_to_address this1)\<rparr>;
                 data = collect (uuid_to_address this2) (map fst (uuid_to_address this2)) []
             in (Resolve peripheral,
                 this2\<lparr>fs := save pf (Config_new pf ''uuid_to_address'') data (fs this2)\<rparr>))"

text \<open>\<open>onDiscover_\<close>, with the clock reading that \<open>new Date\<close> takes.\<close>

definition onDiscover ::
  "nat \<Rightarrow> peripheral \<Rightarrow> session \<Rightarrow> (string, RealtimeData) settled \<times> session" where
  "onDiscover now peripheral this =
     (if localName (advertisement peripheral) \<noteq> Some DEVICE_NAME then
        (Reject ''Discovered => Not a target device'', this)
      else case manufacturerData (advertisement peripheral) of
        None \<Rightarrow> (Reject ''Discovered => Unexpected advertisement data'', this)
      | Some buffer \<Rightarrow>
        if length buffer \<noteq> 9 then
          (Reject ''Discovered => Unexpected advertisement data'', this)
        else
          let expectedCrc16 = int (unat (buffer ! 6)) * 256 + int (unat (buffer ! 5))
          in if expectedCrc16 \<noteq> getCrc16 (take 5 buffer) then
               (Reject ''Discovered => CRC error'', this)
             else if \<not> js_in (uuid peripheral) (uuid_to_address this) then
               (Reject ''Discovered => Address fetch started. Ignoring.'',
                connect peripheral
                  (this\<lparr>uuid_to_address :=
                     AList.update (uuid peripheral) None (uuid_to_address this)\<rparr>))
             else (case js_get (uuid_to_address this) (uuid peripheral) of
               None \<Rightarrow> (Reject ''Discovered => Address fetch on flight. Ignoring.'', this)
             | Some addr \<Rightarrow>
               let temperature_raw_value = int (unat (buffer ! 1)) * 256 + int (unat (buffer ! 0));
                   temperature = (if temperature_raw_value \<ge> 0x8000
                                  then real_of_int (temperature_raw_value - 0x10000) / 100
                                  else real_of_int temperature_raw_value / 100);
                   humidity = real_of_int (int (unat (buffer ! 3)) * 256 + int (unat (buffer ! 2))) / 100;
                   probeType = (if buffer ! 4 = 0 then BUILT_IN
                                else if buffer ! 4 = 1 then EXTERNAL
                                else UNKNOWN);
                   battery = unat (buffer ! 7)
               in (Resolve \<lparr>RealtimeData.address = addr, RealtimeData.uuid = uuid peripheral, date = now,
                            probeType = probeType, temperature = temperature,
                            humidity = humidity, battery = battery\<rparr>,
                   this)))"

text \<open>
  The listener that \<open>subscribeRealtimeData\<close> registers for \<open>discover\<close>: a rejection is
  logged and yields \<open>undefined\<close>, a reading is passed to the subscriber's callback. The
  result lists the arguments of the calls of the callback.
\<close>

definition discover_listener ::
  "nat \<Rightarrow> peripheral \<Rightarrow> session \<Rightarrow> RealtimeData list \<times> session" where
  "discover_listener now peripheral this =
     (case onDiscover now peripheral this of
        (Reject err, this') \<Rightarrow> ([], this')
      | (Resolve realtimeData, this') \<Rightarrow> ([realtimeData], this'))"

subsection \<open>Events and cache entries\<close>

text \<open>
  What happens to a session: the radio reports a discovery, or it runs the callback of a
  connect that is under way, with an error or without, on the peripheral as it is by
  then. A callback for a connect that was never started cannot happen (\<open>None\<close>); the
  outcome of the promise of \<open>connect_\<close> is observed by nobody.
\<close>

datatype event = Discover nat peripheral | ConnectDone "string option" peripheral

fun fire :: "platform \<Rightarrow> event \<Rightarrow> session \<Rightarrow> session option" where
  "fire pf (Discover now p) this = Some (snd (discover_listener now p this))"
| "fire pf (ConnectDone err p) this =
     (if uuid p \<in> set (connecting this)
      then Some (snd (connect_callback pf err p
                        (this\<lparr>connecting := remove1 (uuid p) (connecting this)\<rparr>)))
      else None)"

fun run :: "platform \<Rightarrow> event list \<Rightarrow> session \<Rightarrow> session option" where
  "run pf [] this = Some this"
| "run pf (e # es) this = (case fire pf e this of None \<Rightarrow> None | Some this' \<Rightarrow> run pf es this')"

text \<open>
  The state of a cache entry, read the way \<open>onDiscover_\<close> reads it: the key is not in
  the object, or its value is \<open>null\<close>, or it is an address.
\<close>

datatype entry = Absent | Pending | Resolved string

definition lookup :: "js_object \<Rightarrow> string \<Rightarrow> entry" where
  "lookup obj k =
     (if \<not> js_in k obj then Absent
      else case js_get obj k of None \<Rightarrow> Pending | Some a \<Rightarrow> Resolved a)"

text \<open>
  The steps the specification allows an entry to take under an event: it stays as it is,
  a discovery takes it from absent to pending, the end of a connect takes it from pending
  to resolved or back to absent.
\<close>

fun legal :: "event \<Rightarrow> entry \<Rightarrow> entry \<Rightarrow> bool" where
  "legal (Discover now p) a b = (a = b \<or> (a = Absent \<and> b = Pending))"
| "legal (ConnectDone err p) a b =
     (a = b \<or> (a = Pending \<and> (b = Absent \<or> (\<exists>x. b = Resolved x))))"

text \<open>
  What holds of the connects under way in every session that started with none: no scan
  identifier has two, and the entry of each is pending.
\<close>

definition handshakes_pending :: "session \<Rightarrow> bool" where
  "handshakes_pending this =
     (distinct (connecting this) \<and>
      list_all (\<lambda>u. lookup (uuid_to_address this) u = Pending) (connecting this))"

subsection \<open>A concrete platform\<close>

text \<open>
  An instance of the platform on which the definitions run: \<open>path.resolve\<close> on the two
  calls the library makes, \<open>JSON.stringify\<close> on an object whose values are strings or
  \<open>null\<close>, and \<open>JSON.parse\<close> on the texts of such objects (it rejects every other
  text).
\<close>

definition posix_resolve :: "string \<Rightarrow> string \<Rightarrow> string" where
  "posix_resolve base rel = base @ ''/'' @ takeWhile (\<lambda>c. c \<noteq> CHR ''/'') (drop 2 rel)"

definition hex_digit :: "nat \<Rightarrow> char" where
  "hex_digit n = (if n < 10 then char_of (48 + n) else char_of (87 + n))"

definition quote_char :: "char \<Rightarrow> string" where
  "quote_char c =
     (if c = CHR 0x08 then [CHR 0x5C, CHR ''b'']
      else if c = CHR 0x09 then [CHR 0x5C, CHR ''t'']
      else if c = CHR 0x0A then [CHR 0x5C, CHR ''n'']
      else if c = CHR 0x0C then [CHR 0x5C, CHR ''f'']
      else if c = CHR 0x0D then [CHR 0x5C, CHR ''r'']
      else if c = CHR 0x22 then [CHR 0x5C, CHR 0x22]
      else if c = CHR 0x5C then [CHR 0x5C, CHR 0x5C]
      else if (of_char c :: nat) < 32 then
        [CHR 0x5C, CHR ''u'', CHR ''0'', CHR ''0'',
         hex_digit (of_char c div 16), hex_digit (of_char c mod 16)]
      else [c])"

definition quote :: "string \<Rightarrow> string" where
  "quote s = CHR 0x22 # concat (map quote_char s) @ [CHR 0x22]"

definition stringify_value :: "string option \<Rightarrow> string" where
  "stringify_value v = (case v of None \<Rightarrow> ''null'' | Some s \<Rightarrow> quote s)"

fun stringify_members :: "js_object \<Rightarrow> string" where
  "stringify_members [] = []"
| "stringify_members [(k, v)] = quote k @ '':'' @ stringify_value v"
| "stringify_members ((k, v) # kvs) = quote k @ '':'' @ stringify_value v @ '','' @ stringify_members kvs"

definition stringify :: "js_object \<Rightarrow> string" where
  "stringify obj = ''{'' @ stringify_members obj @ ''}''"

definition unescape :: "char \<Rightarrow> char option" where
  "unescape c =
     (if c = CHR 0x22 \<or> c = CHR 0x5C \<or> c = CHR ''/'' then Some c
      else if c = CHR ''b'' then Some (CHR 0x08)
      else if c = CHR ''t'' then Some (CHR 0x09)
      else if c = CHR ''n'' then Some (CHR 0x0A)
      else if c = CHR ''f'' then Some (CHR 0x0C)
      else if c = CHR ''r'' then Some (CHR 0x0D)
      else None)"

definition hex_value :: "char \<Rightarrow> nat option" where
  "hex_value c =
     (let n = (of_char c :: nat)
      in if 48 \<le> n \<and> n < 58 then Some (n - 48)
         else if 97 \<le> n \<and> n < 103 then Some (n - 87)
         else if 65 \<le> n \<and> n < 71 then Some (n - 55)
         else None)"

datatype scan_mode = Plain | Escaped | Hex nat nat

text \<open>
  Reads a string literal after its opening quote: the characters read so far (newest
  first) and the rest of the text; the result is the string and the text after the
  closing quote. An escape above \<open>\u007f\<close> is not accepted.
\<close>

fun scan_string :: "scan_mode \<Rightarrow> string \<Rightarrow> string \<Rightarrow> (string \<times> string) option" where
  "scan_string m acc [] = None"
| "scan_string Plain acc (c # cs) =
     (if c = CHR 0x22 then Some (rev acc, cs)
      else if c = CHR 0x5C then scan_string Escaped acc cs
      else if (of_char c :: nat) < 32 then None
      else scan_string Plain (c # acc) cs)"
| "scan_string Escaped acc (c # cs) =
     (if c = CHR ''u'' then scan_string (Hex 4 0) acc cs
      else case unescape c of
             None \<Rightarrow> None
           | Some d \<Rightarrow> scan_string Plain (d # acc) cs)"
| "scan_string (Hex n v) acc (c # cs) =
     (case hex_value c of
        None \<Rightarrow> None
      | Some h \<Rightarrow>
          if n \<le> 1 then
            (if 16 * v + h < 128 then scan_string Plain (char_of (16 * v + h) # acc) cs
             else None)
          else scan_string (Hex (n - 1) (16 * v + h)) acc cs)"

definition parse_string :: "string \<Rightarrow> (string \<times> string) option" where
  "parse_string text =
     (case text of [] \<Rightarrow> None
      | c # cs \<Rightarrow> if c = CHR 0x22 then scan_string Plain [] cs else None)"

definition parse_value :: "string \<Rightarrow> (string option \<times> string) option" where
  "parse_value text =
     (if take 4 text = ''null'' then Some (None, drop 4 text)
      else case parse_string text of
             None \<Rightarrow> None
           | Some (s, rest) \<Rightarrow> Some (Some s, rest))"

text \<open>
  The members of an object after \<open>{\<close> or a comma, with the members read so far; a
  repeated key keeps its place and takes the later value. The first argument bounds the
  number of members.
\<close>

fun parse_members :: "nat \<Rightarrow> js_object \<Rightarrow> string \<Rightarrow> js_object option" where
  "parse_members 0 obj text = None"
| "parse_members (Suc n) obj text =
     (case parse_string text of
        None \<Rightarrow> None
      | Some (k, rest) \<Rightarrow>
          (case rest of
             [] \<Rightarrow> None
           | c # rest' \<Rightarrow>
               if c \<noteq> CHR '':'' then None
               else (case parse_value rest' of
                       None \<Rightarrow> None
                     | Some (v, rest'') \<Rightarrow>
                         if rest'' = ''}'' then Some (AList.update k v obj)
                         else if take 1 rest'' = '','' then
                           parse_members n (AList.update k v obj) (drop 1 rest'')
                         else None)))"

definition parse :: "string \<Rightarrow> js_object option" where
  "parse text =
     (if text = ''{}'' then Some []
      else if take 1 text = ''{'' then parse_members (length text) [] (drop 1 text)
      else None)"

definition node :: platform where
  "node = \<lparr>os_homedir = ''/home/pi'', path_resolve = posix_resolve,
            JSON_stringify = stringify, JSON_parse = parse\<rparr>"

subsection \<open>Valid frames and sample inputs\<close>

text \<open>
  A discovery that gets past the three guards at the head of \<open>onDiscover_\<close>: the
  advertised name, the length of the manufacturer data and the checksum.
\<close>

definition passes_filter :: "peripheral \<Rightarrow> bool" where
  "passes_filter p =
     (localName (advertisement p) = Some DEVICE_NAME \<and>
      (case manufacturerData (advertisement p) of
         None \<Rightarrow> False
       | Some buffer \<Rightarrow>
           length buffer = 9 \<and>
           int (unat (buffer ! 6)) * 256 + int (unat (buffer ! 5)) = getCrc16 (take 5 buffer)))"

text \<open>The little-endian 16-bit value of two bytes, as the specification words it.\<close>

definition le16 :: "byte \<Rightarrow> byte \<Rightarrow> int" where
  "le16 lo hi = uint (word_cat hi lo :: 16 word)"

text \<open>
  Frames of the device: 21.50 degrees, 55.32 percent, built-in probe, battery 87; the
  same with temperature raw 0xFF9C and the external probe; the same as the first with
  probe byte 7; and the first with its low checksum byte corrupted.
\<close>

definition frame_2150 :: Buffer where
  "frame_2150 = [0x66, 0x08, 0x9C, 0x15, 0x00, 0xE0, 0xD6, 87, 0]"

definition frame_FF9C :: Buffer where
  "frame_FF9C = [0x9C, 0xFF, 0x9C, 0x15, 0x01, 0xCB, 0x76, 87, 0]"

definition frame_probe7 :: Buffer where
  "frame_probe7 = [0x66, 0x08, 0x9C, 0x15, 0x07, 0xA1, 0x14, 87, 0]"

definition frame_corrupt :: Buffer where
  "frame_corrupt = [0x66, 0x08, 0x9C, 0x15, 0x00, 0xE1, 0xD6, 87, 0]"

definition sensor :: "string \<Rightarrow> string option \<Rightarrow> Buffer \<Rightarrow> peripheral" where
  "sensor u a buffer =
     \<lparr>uuid = u, address = a,
      advertisement = \<lparr>localName = Some ''sps'', manufacturerData = Some buffer\<rparr>\<rparr>"

definition fresh :: "js_object \<Rightarrow> session" where
  "fresh cache =
     \<lparr>uuid_to_address = cache, connecting = [], disconnecting = [],
      fs = \<lparr>dirs = {}, files = Map.empty\<rparr>\<rparr>"

section \<open>The checksum\<close>

text \<open>
  The 32-bit accumulator of the code never leaves the low 16 bits, so it is the
  zero-extension of the 16-bit accumulator of the specification at every step.
\<close>

lemma low_bit_ucast: "((ucast (c :: 16 word) :: 32 word) AND 0x1 \<noteq> 0) = bit c 0"
proof -
  have "((ucast c :: 32 word) AND 1 \<noteq> 0) = bit (ucast c :: 32 word) 0"
    by (simp add: and_one_eq bit_0 mod2_eq_if)
  also have "\<dots> = bit c 0"
    by (simp add: bit_ucast_iff)
  finally show ?thesis by simp
qed

lemma signed_drop_bit_ucast:
  "signed_drop_bit 1 (ucast (c :: 16 word) :: 32 word) = ucast (drop_bit 1 c)"
  by (rule bit_word_eqI) (auto simp add: bit_simps dest: bit_imp_le_length)

lemma xor_byte_ucast:
  "(ucast (c :: 16 word) :: 32 word) XOR ucast (b :: byte) = ucast (c XOR ucast b)"
  by (rule bit_word_eqI) (auto simp add: bit_simps dest: bit_imp_le_length)

lemma xor_poly_ucast: "(ucast (c :: 16 word) :: 32 word) XOR 0xa001 = ucast (c XOR 0xA001)"
proof -
  have "(0xa001 :: 32 word) = ucast (0xA001 :: 16 word)" by simp
  then show ?thesis by (simp only: unsigned_xor_eq)
qed

lemma crc16_shift_ucast: "crc16_shift (ucast (c :: 16 word)) = ucast (checksum_round c)"
  unfolding crc16_shift_def checksum_round_def Let_def
  by (simp only: low_bit_ucast signed_drop_bit_ucast xor_poly_ucast if_distrib [of ucast]
        cong: if_cong)

lemma crc16_inner_ucast:
  "crc16_inner i (ucast (c :: 16 word)) = ucast ((checksum_round ^^ (8 - i)) c)"
proof (induction i "ucast c :: 32 word" arbitrary: c rule: crc16_inner.induct)
  case (1 i)
  show ?case
  proof (cases "i < 8")
    case True
    then have "8 - i = Suc (8 - (i + 1))" by simp
    with True 1 [OF True crc16_shift_ucast] show ?thesis
      by (simp add: crc16_shift_ucast funpow_swap1 crc16_inner.simps [of i])
  next
    case False
    then show ?thesis by (simp add: crc16_inner.simps [of i])
  qed
qed

lemma crc16_outer_ucast:
  "crc16_outer (ucast (c :: 16 word)) buffer = ucast (checksum_bytes c buffer)"
  by (induction buffer arbitrary: c) (simp_all add: xor_byte_ucast crc16_inner_ucast)

lemma sint_ucast_16_32: "sint (ucast (c :: 16 word) :: 32 word) = uint c"
proof -
  have "uint c < 2 ^ 16" using uint_bounded [of c] by simp
  then have b: "uint c < 2 ^ 31" by simp
  have a: "- (2 ^ 31) \<le> uint c" by (rule order_trans [of _ 0]) simp_all
  have "sint (ucast c :: 32 word) = signed_take_bit 31 (uint c)"
    by (simp add: signed_ucast_eq)
  also have "\<dots> = uint c"
    using a b by (rule signed_take_bit_int_eq_self)
  finally show ?thesis .
qed

lemma getCrc16_checksum: "getCrc16 buffer = uint (computeChecksum buffer)"
proof -
  have "(0xffff :: 32 word) = ucast (0xFFFF :: 16 word)" by simp
  then show ?thesis
    unfolding getCrc16_def computeChecksum_def by (simp only: crc16_outer_ucast sint_ucast_16_32)
qed

text \<open>
  Claim C2. For every byte sequence, the empty one included, \<open>getCrc16\<close> returns the
  16-bit unsigned value of the specification's algorithm (accumulator 0xFFFF, each byte
  XORed into the low byte, eight shifts with 0xA001 XORed in when the bit shifted out was
  1); the result lies in 0..0xFFFF. The inner and the outer iteration of the model are total functions, so the
  call returns on every input.
\<close>

theorem getCrc16_refines_computeChecksum:
  "getCrc16 buffer = uint (computeChecksum buffer) \<and>
   0 \<le> getCrc16 buffer \<and> getCrc16 buffer \<le> 0xFFFF \<and>
   getCrc16 [] = 0xFFFF"
proof -
  have "uint (computeChecksum buffer) < 2 ^ 16"
    using uint_bounded [of "computeChecksum buffer"] by simp
  moreover have "getCrc16 [] = 0xFFFF"
    by (simp add: getCrc16_def)
  ultimately show ?thesis
    by (simp add: getCrc16_checksum)
qed

section \<open>Decoding\<close>

lemma le16_eq: "le16 lo hi = int (unat hi) * 256 + int (unat lo)"
proof -
  have lo: "uint lo < 2 ^ 8" using uint_bounded [of lo] by simp
  have hi: "uint hi < 2 ^ 8" using uint_bounded [of hi] by simp
  have up: "uint (ucast b :: 16 word) = uint b" for b :: byte
    by (simp add: uint_up_ucast is_up)
  have "uint (word_cat hi lo :: 16 word) = (uint hi * 256 + uint lo) mod 2 ^ 16"
    by (simp add: word_cat_eq uint_word_ariths take_bit_eq_mod push_bit_eq_mult mod_simps up)
  also have "\<dots> = uint hi * 256 + uint lo"
    using lo hi by (intro mod_pos_pos_trivial) simp_all
  finally show ?thesis by (simp add: le16_def)
qed

lemma lookup_Resolved:
  "lookup obj k = Resolved a \<longleftrightarrow> js_in k obj \<and> js_get obj k = Some a"
  by (auto simp add: lookup_def split: option.splits)

lemma lookup_Absent: "lookup obj k = Absent \<longleftrightarrow> \<not> js_in k obj"
  by (auto simp add: lookup_def split: option.splits)

lemma lookup_Pending: "lookup obj k = Pending \<longleftrightarrow> js_in k obj \<and> js_get obj k = None"
  by (auto simp add: lookup_def split: option.splits)

lemma onDiscover_resolved:
  assumes "localName (advertisement p) = Some DEVICE_NAME"
    and "manufacturerData (advertisement p) = Some buffer"
    and "length buffer = 9"
    and "getCrc16 (take 5 buffer) = int (unat (buffer ! 6)) * 256 + int (unat (buffer ! 5))"
    and "lookup (uuid_to_address this) (uuid p) = Resolved addr"
  shows "onDiscover now p this =
     (Resolve \<lparr>RealtimeData.address = addr, RealtimeData.uuid = uuid p, date = now,
        probeType = (if buffer ! 4 = 0 then BUILT_IN else if buffer ! 4 = 1 then EXTERNAL else UNKNOWN),
        temperature =
          (if int (unat (buffer ! 1)) * 256 + int (unat (buffer ! 0)) \<ge> 0x8000
           then real_of_int (int (unat (buffer ! 1)) * 256 + int (unat (buffer ! 0)) - 0x10000) / 100
           else real_of_int (int (unat (buffer ! 1)) * 256 + int (unat (buffer ! 0))) / 100),
        humidity = real_of_int (int (unat (buffer ! 3)) * 256 + int (unat (buffer ! 2))) / 100,
        battery = unat (buffer ! 7)\<rparr>, this)"
  using assms by (simp add: onDiscover_def lookup_Resolved Let_def)

text \<open>
  Claim C1. For a 9-byte frame that passes the name, length and checksum guards and
  whose scan identifier is resolved, \<open>onDiscover_\<close> resolves with a reading whose
  temperature is the little-endian 16-bit value at offsets 0-1, less 0x10000 when it is
  at least 0x8000, divided by 100; whose humidity is the little-endian 16-bit value at
  offsets 2-3 divided by 100; whose probe type is BUILT_IN, EXTERNAL or UNKNOWN for byte
  4 being 0, 1 or anything else; and whose battery is byte 7. Byte 8 is unused: replacing
  it changes nothing. The witness is the frame of the specification (raw 2150, raw 5532,
  probe 0, battery 87) and the frame with raw 0xFF9C, which reads -1.00.
\<close>

theorem decoded_reading:
  assumes "localName (advertisement p) = Some DEVICE_NAME"
    and "manufacturerData (advertisement p) = Some buffer"
    and "length buffer = 9"
    and "getCrc16 (take 5 buffer) = le16 (buffer ! 5) (buffer ! 6)"
    and "lookup (uuid_to_address this) (uuid p) = Resolved addr"
  shows "\<exists>r. onDiscover now p this = (Resolve r, this) \<and>
     temperature r =
       real_of_int (if le16 (buffer ! 0) (buffer ! 1) \<ge> 0x8000
                    then le16 (buffer ! 0) (buffer ! 1) - 0x10000
                    else le16 (buffer ! 0) (buffer ! 1)) / 100 \<and>
     humidity r = real_of_int (le16 (buffer ! 2) (buffer ! 3)) / 100 \<and>
     probeType r = (if buffer ! 4 = 0 then BUILT_IN else if buffer ! 4 = 1 then EXTERNAL else UNKNOWN) \<and>
     battery r = unat (buffer ! 7) \<and>
     RealtimeData.address r = addr \<and>
     (\<forall>x. onDiscover now
            (p\<lparr>advertisement := (advertisement p)\<lparr>manufacturerData := Some (buffer[8 := x])\<rparr>\<rparr>)
            this = (Resolve r, this))"
proof -
  let ?b8 = "\<lambda>x. buffer[8 := x]"
  let ?p8 = "\<lambda>x. p\<lparr>advertisement := (advertisement p)\<lparr>manufacturerData := Some (?b8 x)\<rparr>\<rparr>"
  have crc: "getCrc16 (take 5 buffer) = int (unat (buffer ! 6)) * 256 + int (unat (buffer ! 5))"
    using assms(4) by (simp add: le16_eq)
  note r = onDiscover_resolved [OF assms(1-3) crc assms(5), of now]
  have same: "onDiscover now (?p8 x) this = onDiscover now p this" for x
  proof -
    have "take 5 (?b8 x) = take 5 buffer" by simp
    with crc assms(3)
    have crc8: "getCrc16 (take 5 (?b8 x)) = int (unat (?b8 x ! 6)) * 256 + int (unat (?b8 x ! 5))"
      by simp
    have "onDiscover now (?p8 x) this = onDiscover now p this"
      unfolding r
      using onDiscover_resolved [of "?p8 x" "?b8 x" this addr now] assms(1,3,5) crc8
      by simp
    then show ?thesis .
  qed
  show ?thesis
    unfolding same unfolding r by (simp add: le16_eq)
qed

lemma crc_2150: "getCrc16 (take 5 frame_2150) = 0xD6E0"
  by (simp add: frame_2150_def getCrc16_def crc16_inner.simps crc16_shift_def)
lemma crc_FF9C: "getCrc16 (take 5 frame_FF9C) = 0x76CB"
  by (simp add: frame_FF9C_def getCrc16_def crc16_inner.simps crc16_shift_def)

theorem decoded_reading_witness:
  "(\<exists>r. onDiscover 1 (sensor ''a1'' None frame_2150) (fresh [(''a1'', Some ''AA:BB:CC:DD:EE:FF'')])
        = (Resolve r, fresh [(''a1'', Some ''AA:BB:CC:DD:EE:FF'')]) \<and>
      temperature r = 21.5 \<and> humidity r = 55.32 \<and> probeType r = BUILT_IN \<and> battery r = 87) \<and>
   (\<exists>r. onDiscover 1 (sensor ''a1'' None frame_FF9C) (fresh [(''a1'', Some ''AA:BB:CC:DD:EE:FF'')])
        = (Resolve r, fresh [(''a1'', Some ''AA:BB:CC:DD:EE:FF'')]) \<and>
      temperature r = -1)"
proof -
  let ?s = "fresh [(''a1'', Some ''AA:BB:CC:DD:EE:FF'')]"
  have l: "lookup (uuid_to_address ?s) (uuid (sensor ''a1'' None b)) = Resolved ''AA:BB:CC:DD:EE:FF''" for b
    by (simp add: fresh_def sensor_def lookup_def js_in_def js_get_def)
  have n: "localName (advertisement (sensor ''a1'' None b)) = Some DEVICE_NAME" for b
    by (simp add: sensor_def DEVICE_NAME_def)
  have m: "manufacturerData (advertisement (sensor ''a1'' None b)) = Some b" for b
    by (simp add: sensor_def)
  have c1: "getCrc16 (take 5 frame_2150) = le16 (frame_2150 ! 5) (frame_2150 ! 6)"
    unfolding crc_2150 by (simp add: le16_eq frame_2150_def)
  have c2: "getCrc16 (take 5 frame_FF9C) = le16 (frame_FF9C ! 5) (frame_FF9C ! 6)"
    unfolding crc_FF9C by (simp add: le16_eq frame_FF9C_def)
  from decoded_reading [OF n m _ c1 l, of 1]
  obtain r1 where "onDiscover 1 (sensor ''a1'' None frame_2150) ?s = (Resolve r1, ?s)"
    and "temperature r1 = 21.5 \<and> humidity r1 = 55.32 \<and> probeType r1 = BUILT_IN \<and> battery r1 = 87"
    by (auto simp add: le16_eq frame_2150_def)
  moreover
  from decoded_reading [OF n m _ c2 l, of 1]
  obtain r2 where "onDiscover 1 (sensor ''a1'' None frame_FF9C) ?s = (Resolve r2, ?s)"
    and "temperature r2 = -1"
    by (auto simp add: le16_eq frame_FF9C_def)
  ultimately show ?thesis by blast
qed

section \<open>Filtering and the probe type\<close>

lemma passes_filter_iff:
  "passes_filter p \<longleftrightarrow>
     localName (advertisement p) = Some DEVICE_NAME \<and>
     (\<exists>buffer. manufacturerData (advertisement p) = Some buffer \<and> length buffer = 9 \<and>
        getCrc16 (take 5 buffer) = le16 (buffer ! 5) (buffer ! 6))"
  by (auto simp add: passes_filter_def le16_eq split: option.splits)

lemma onDiscover_filtered:
  assumes "\<not> passes_filter p"
  shows "\<exists>reason. onDiscover now p this = (Reject reason, this)"
  using assms by (auto simp add: passes_filter_def onDiscover_def Let_def split: option.splits)

lemma onDiscover_absent:
  assumes "passes_filter p" and "lookup (uuid_to_address this) (uuid p) = Absent"
  shows "onDiscover now p this =
     (Reject ''Discovered => Address fetch started. Ignoring.'',
      this\<lparr>uuid_to_address := AList.update (uuid p) None (uuid_to_address this),
           connecting := connecting this @ [uuid p]\<rparr>)"
  using assms
  by (auto simp add: passes_filter_def onDiscover_def Let_def lookup_Absent connect_def
        split: option.splits)

lemma onDiscover_pending:
  assumes "passes_filter p" and "lookup (uuid_to_address this) (uuid p) = Pending"
  shows "onDiscover now p this =
     (Reject ''Discovered => Address fetch on flight. Ignoring.'', this)"
  using assms
  by (auto simp add: passes_filter_def onDiscover_def Let_def lookup_Pending
        split: option.splits)

lemma onDiscover_Resolve_iff:
  "(\<exists>r. onDiscover now p this = (Resolve r, this')) \<longleftrightarrow>
     passes_filter p \<and> (\<exists>a. lookup (uuid_to_address this) (uuid p) = Resolved a) \<and> this' = this"
  by (auto simp add: passes_filter_def onDiscover_def Let_def lookup_def
        split: option.splits if_splits)

text \<open>
  Claim C3. A discovery whose advertised name is not the target name, or whose
  manufacturer data is absent or not 9 bytes long, or whose checksum over bytes 0-4
  differs from the little-endian 16-bit value at offsets 5-6, is dropped: the promise is
  rejected (no reading is decoded), the session and its cache are unchanged, and the
  subscriber's callback is not called.
\<close>

theorem filtered_event_dropped:
  assumes "localName (advertisement p) \<noteq> Some DEVICE_NAME \<or>
           manufacturerData (advertisement p) = None \<or>
           (\<exists>buffer. manufacturerData (advertisement p) = Some buffer \<and>
              (length buffer \<noteq> 9 \<or>
               getCrc16 (take 5 buffer) \<noteq> le16 (buffer ! 5) (buffer ! 6)))"
  shows "(\<exists>reason. onDiscover now p this = (Reject reason, this)) \<and>
         discover_listener now p this = ([], this)"
proof -
  from assms have "\<not> passes_filter p"
    by (auto simp add: passes_filter_iff)
  then obtain reason where r: "onDiscover now p this = (Reject reason, this)"
    using onDiscover_filtered by blast
  then show ?thesis
    by (simp add: discover_listener_def)
qed

theorem filtered_event_dropped_witness:
  "discover_listener 1 (sensor ''a1'' None frame_corrupt) (fresh [(''a1'', Some ''AA:BB:CC:DD:EE:FF'')])
     = ([], fresh [(''a1'', Some ''AA:BB:CC:DD:EE:FF'')]) \<and>
   discover_listener 1 (sensor ''a1'' None (butlast frame_2150)) (fresh [(''a1'', Some ''AA:BB:CC:DD:EE:FF'')])
     = ([], fresh [(''a1'', Some ''AA:BB:CC:DD:EE:FF'')]) \<and>
   discover_listener 1 ((sensor ''a1'' None frame_2150)\<lparr>advertisement := \<lparr>localName = Some ''sps'', manufacturerData = None\<rparr>\<rparr>)
       (fresh [(''a1'', Some ''AA:BB:CC:DD:EE:FF'')])
     = ([], fresh [(''a1'', Some ''AA:BB:CC:DD:EE:FF'')]) \<and>
   discover_listener 1 ((sensor ''a1'' None frame_2150)\<lparr>advertisement := \<lparr>localName = Some ''tps'', manufacturerData = Some frame_2150\<rparr>\<rparr>)
       (fresh [(''a1'', Some ''AA:BB:CC:DD:EE:FF'')])
     = ([], fresh [(''a1'', Some ''AA:BB:CC:DD:EE:FF'')])"
proof -
  have "getCrc16 (take 5 frame_corrupt) = 0xD6E0"
    by (simp add: frame_corrupt_def getCrc16_def crc16_inner.simps crc16_shift_def)
  then have "getCrc16 (take 5 frame_corrupt) \<noteq> le16 (frame_corrupt ! 5) (frame_corrupt ! 6)"
    by (simp add: le16_eq frame_corrupt_def)
  then have 1: "discover_listener 1 (sensor ''a1'' None frame_corrupt) s = ([], s)" for s
    using filtered_event_dropped [of "sensor ''a1'' None frame_corrupt" 1 s]
    by (simp add: sensor_def)
  have 2: "discover_listener 1 (sensor ''a1'' None (butlast frame_2150)) s = ([], s)" for s
    using filtered_event_dropped [of "sensor ''a1'' None (butlast frame_2150)" 1 s]
    by (simp add: sensor_def frame_2150_def)
  have 3: "discover_listener 1 ((sensor ''a1'' None frame_2150)\<lparr>advertisement := \<lparr>localName = Some ''sps'', manufacturerData = None\<rparr>\<rparr>) s = ([], s)" for s
    using filtered_event_dropped [of "(sensor ''a1'' None frame_2150)\<lparr>advertisement := \<lparr>localName = Some ''sps'', manufacturerData = None\<rparr>\<rparr>" 1 s]
    by simp
  have 4: "discover_listener 1 ((sensor ''a1'' None frame_2150)\<lparr>advertisement := \<lparr>localName = Some ''tps'', manufacturerData = Some frame_2150\<rparr>\<rparr>) s = ([], s)" for s
    using filtered_event_dropped [of "(sensor ''a1'' None frame_2150)\<lparr>advertisement := \<lparr>localName = Some ''tps'', manufacturerData = Some frame_2150\<rparr>\<rparr>" 1 s]
    by (simp add: DEVICE_NAME_def)
  show ?thesis by (simp only: 1 2 3 4)
qed

text \<open>
  Claim C10. The probe type of a delivered reading is the enum value, not the wire byte:
  byte 0 gives 1 (BUILT_IN), byte 1 gives 2 (EXTERNAL), every other byte gives 0
  (UNKNOWN). So it is one of 0, 1, 2, and it differs from byte 4 of the frame for every
  value of that byte.
\<close>

theorem probeType_enum:
  assumes "discover_listener now p this = ([r], this')"
    and "manufacturerData (advertisement p) = Some buffer"
  shows "probeType r = (if buffer ! 4 = 0 then 1 else if buffer ! 4 = 1 then 2 else 0) \<and>
         probeType r \<in> {0, 1, 2} \<and>
         probeType r \<noteq> unat (buffer ! 4) \<and>
         BUILT_IN = 1 \<and> EXTERNAL = 2 \<and> UNKNOWN = 0"
proof -
  from assms(1) have o: "onDiscover now p this = (Resolve r, this')"
    by (auto simp add: discover_listener_def split: prod.splits settled.splits)
  then have "passes_filter p" and "\<exists>a. lookup (uuid_to_address this) (uuid p) = Resolved a"
    using onDiscover_Resolve_iff [of now p this this'] by blast+
  then obtain a where a: "lookup (uuid_to_address this) (uuid p) = Resolved a"
    and f: "localName (advertisement p) = Some DEVICE_NAME" "length buffer = 9"
      "getCrc16 (take 5 buffer) = int (unat (buffer ! 6)) * 256 + int (unat (buffer ! 5))"
    using assms(2) by (auto simp add: passes_filter_def)
  from onDiscover_resolved [OF f(1) assms(2) f(2,3) a, of now] o
  have pt: "probeType r =
      (if buffer ! 4 = 0 then BUILT_IN else if buffer ! 4 = 1 then EXTERNAL else UNKNOWN)"
    by auto
  have "unat (buffer ! 4) = 0 \<longleftrightarrow> buffer ! 4 = 0" "unat (buffer ! 4) = 1 \<longleftrightarrow> buffer ! 4 = 1"
    by (simp_all add: word_unat_eq_iff)
  with pt show ?thesis
    by (auto simp add: BUILT_IN_def EXTERNAL_def UNKNOWN_def)
qed


lemma crc_probe7: "getCrc16 (take 5 frame_probe7) = 0x14A1"
  by (simp add: frame_probe7_def getCrc16_def crc16_inner.simps crc16_shift_def)

lemma passes_filter_samples:
  "passes_filter (sensor u a frame_2150)"
  "passes_filter (sensor u a frame_FF9C)"
  "passes_filter (sensor u a frame_probe7)"
  unfolding passes_filter_def sensor_def
  using crc_2150 crc_FF9C crc_probe7
  by (simp_all add: DEVICE_NAME_def) (simp_all add: frame_2150_def frame_FF9C_def frame_probe7_def)

lemma discover_listener_sample:
  assumes "passes_filter (sensor ''a1'' None b)"
  shows "\<exists>r. discover_listener 1 (sensor ''a1'' None b) (fresh [(''a1'', Some ''AA:BB:CC:DD:EE:FF'')])
            = ([r], fresh [(''a1'', Some ''AA:BB:CC:DD:EE:FF'')])"
proof -
  have "lookup (uuid_to_address (fresh [(''a1'', Some ''AA:BB:CC:DD:EE:FF'')])) (uuid (sensor ''a1'' None b))
          = Resolved ''AA:BB:CC:DD:EE:FF''"
    by (simp add: fresh_def sensor_def lookup_def js_in_def js_get_def)
  with assms obtain r where
    "onDiscover 1 (sensor ''a1'' None b) (fresh [(''a1'', Some ''AA:BB:CC:DD:EE:FF'')])
       = (Resolve r, fresh [(''a1'', Some ''AA:BB:CC:DD:EE:FF'')])"
    using onDiscover_Resolve_iff [of 1 "sensor ''a1'' None b"] by blast
  then show ?thesis by (simp add: discover_listener_def)
qed

theorem probeType_enum_witness:
  "(\<exists>r. discover_listener 1 (sensor ''a1'' None frame_2150) (fresh [(''a1'', Some ''AA:BB:CC:DD:EE:FF'')])
          = ([r], fresh [(''a1'', Some ''AA:BB:CC:DD:EE:FF'')]) \<and> probeType r = 1) \<and>
   (\<exists>r. discover_listener 1 (sensor ''a1'' None frame_FF9C) (fresh [(''a1'', Some ''AA:BB:CC:DD:EE:FF'')])
          = ([r], fresh [(''a1'', Some ''AA:BB:CC:DD:EE:FF'')]) \<and> probeType r = 2) \<and>
   (\<exists>r. discover_listener 1 (sensor ''a1'' None frame_probe7) (fresh [(''a1'', Some ''AA:BB:CC:DD:EE:FF'')])
          = ([r], fresh [(''a1'', Some ''AA:BB:CC:DD:EE:FF'')]) \<and> probeType r = 0)"
proof -
  let ?s = "fresh [(''a1'', Some ''AA:BB:CC:DD:EE:FF'')]"
  have m: "manufacturerData (advertisement (sensor ''a1'' None b)) = Some b" for b
    by (simp add: sensor_def)
  obtain r1 where r1: "discover_listener 1 (sensor ''a1'' None frame_2150) ?s = ([r1], ?s)"
    using discover_listener_sample [OF passes_filter_samples(1)] by blast
  obtain r2 where r2: "discover_listener 1 (sensor ''a1'' None frame_FF9C) ?s = ([r2], ?s)"
    using discover_listener_sample [OF passes_filter_samples(2)] by blast
  obtain r3 where r3: "discover_listener 1 (sensor ''a1'' None frame_probe7) ?s = ([r3], ?s)"
    using discover_listener_sample [OF passes_filter_samples(3)] by blast
  have "probeType r1 = 1"
    using probeType_enum [OF r1 m] by (simp add: frame_2150_def)
  moreover have "probeType r2 = 2"
    using probeType_enum [OF r2 m] by (simp add: frame_FF9C_def)
  moreover have "probeType r3 = 0"
    using probeType_enum [OF r3 m] by (simp add: frame_probe7_def)
  ultimately show ?thesis using r1 r2 r3 by blast
qed

section \<open>One handshake per scan identifier\<close>

lemma lookup_update:
  "lookup (AList.update k v obj) k' =
     (if k' = k then (case v of None \<Rightarrow> Pending | Some a \<Rightarrow> Resolved a) else lookup obj k')"
  by (simp add: lookup_def js_in_def js_get_def update_conv' split: option.splits)

lemma lookup_delete:
  "lookup (AList.delete k obj) k' = (if k' = k then Absent else lookup obj k')"
  by (simp add: lookup_def js_in_def js_get_def delete_conv' split: option.splits)

text \<open>
  Claim C4. When two valid discoveries of one scan identifier are handled in a row and
  the cache has no entry for it at the start, the first marks the entry pending and
  starts the one connect, the second finds it pending and is dropped: the list of
  connects under way grows by exactly that one call, and the subscriber's callback is
  called for neither.
\<close>

theorem single_handshake:
  assumes "passes_filter p1" and "passes_filter p2"
    and "uuid p1 = u" and "uuid p2 = u"
    and "lookup (uuid_to_address this) u = Absent"
  shows "\<exists>this1.
     onDiscover t1 p1 this = (Reject ''Discovered => Address fetch started. Ignoring.'', this1) \<and>
     lookup (uuid_to_address this1) u = Pending \<and>
     connecting this1 = connecting this @ [u] \<and>
     onDiscover t2 p2 this1 = (Reject ''Discovered => Address fetch on flight. Ignoring.'', this1) \<and>
     discover_listener t1 p1 this = ([], this1) \<and>
     discover_listener t2 p2 this1 = ([], this1) \<and>
     run pf [Discover t1 p1, Discover t2 p2] this = Some this1"
proof -
  let ?this1 = "this\<lparr>uuid_to_address := AList.update u None (uuid_to_address this),
                     connecting := connecting this @ [u]\<rparr>"
  have 1: "onDiscover t1 p1 this =
      (Reject ''Discovered => Address fetch started. Ignoring.'', ?this1)"
    using onDiscover_absent [of p1 this t1] assms(1,3,5) by simp
  have p: "lookup (uuid_to_address ?this1) u = Pending"
    by (simp add: lookup_update)
  have 2: "onDiscover t2 p2 ?this1 =
      (Reject ''Discovered => Address fetch on flight. Ignoring.'', ?this1)"
    using onDiscover_pending [of p2 ?this1 t2] assms(2,4) p by simp
  show ?thesis
    using 1 2 p by (intro exI [of _ ?this1]) (simp add: discover_listener_def)
qed

theorem single_handshake_witness:
  "\<exists>this1.
     run node [Discover 1 (sensor ''a1'' None frame_2150), Discover 2 (sensor ''a1'' None frame_FF9C)]
       (fresh []) = Some this1 \<and>
     lookup (uuid_to_address this1) ''a1'' = Pending \<and>
     connecting this1 = [''a1'']"
proof -
  have a: "lookup (uuid_to_address (fresh [])) ''a1'' = Absent"
    by (simp add: fresh_def lookup_def js_in_def)
  have u: "uuid (sensor ''a1'' None b) = ''a1''" for b
    by (simp add: sensor_def)
  from single_handshake [OF passes_filter_samples(1) passes_filter_samples(2) u u a, of 1 2 node]
  show ?thesis
    by (auto simp add: fresh_def)
qed

section \<open>The connect callback\<close>

lemma connect_callback_error:
  "connect_callback pf (Some e) p this = (Reject (Some ''connect result:''), this)"
  by (simp add: connect_callback_def)

lemma connect_callback_no_uuid:
  assumes "uuid p = []"
  shows "connect_callback pf None p this =
     (Reject None,
      this\<lparr>disconnecting := disconnecting this @ [uuid p],
           uuid_to_address := AList.delete (uuid p) (uuid_to_address this)\<rparr>)"
  using assms by (simp add: connect_callback_def)

lemma connect_callback_success:
  assumes "uuid p \<noteq> []"
  shows "connect_callback pf None p this =
     (Resolve p,
      this\<lparr>disconnecting := disconnecting this @ [uuid p],
           uuid_to_address := AList.update (uuid p) (address p) (uuid_to_address this),
           fs := save pf (Config_new pf ''uuid_to_address'')
                   (collect (AList.update (uuid p) (address p) (uuid_to_address this))
                      (map fst (AList.update (uuid p) (address p) (uuid_to_address this))) [])
                   (fs this)\<rparr>)"
  using assms by (simp add: connect_callback_def Let_def)

lemma map_of_collect:
  "map_of (collect obj keys data) k =
     (if k \<in> set keys \<and> js_get obj k \<noteq> None then Some (js_get obj k) else map_of data k)"
  by (induction keys arbitrary: data) (auto simp add: update_conv')

lemma lookup_collect:
  "lookup (collect obj (map fst obj) []) k =
     (case lookup obj k of Resolved a \<Rightarrow> Resolved a | _ \<Rightarrow> Absent)"
proof -
  have "k \<in> set (map fst obj) \<longleftrightarrow> map_of obj k \<noteq> None"
    by (simp add: map_of_eq_None_iff)
  then show ?thesis
    by (auto simp add: lookup_def js_in_def js_get_def [of "collect _ _ _"] map_of_collect
          split: option.splits)
qed

lemma readFileSync_save:
  "readFileSync (save pf cfg data fsys) (configPath cfg) = Some (JSON_stringify pf data)"
  by (simp add: save_def readFileSync_def writeFileSync_def mkdirSync_def Let_def)

text \<open>
  Claim C6. When the connect succeeds and the peripheral has an address, the callback
  sets the entry to that address and saves: the file then holds the JSON text of an
  object that has exactly the resolved entries of the cache, with their addresses, and
  no entry for a pending or an absent identifier.
\<close>

theorem resolve_persists_resolved_entries:
  assumes "uuid p \<noteq> []" and "address p = Some a"
  shows "\<exists>this' data.
     connect_callback pf None p this = (Resolve p, this') \<and>
     lookup (uuid_to_address this') (uuid p) = Resolved a \<and>
     readFileSync (fs this') (configPath (Config_new pf ''uuid_to_address''))
       = Some (JSON_stringify pf data) \<and>
     (\<forall>k. lookup data k =
        (case lookup (uuid_to_address this') k of Resolved x \<Rightarrow> Resolved x | _ \<Rightarrow> Absent))"
proof -
  let ?cache = "AList.update (uuid p) (address p) (uuid_to_address this)"
  let ?data = "collect ?cache (map fst ?cache) []"
  let ?this' = "this\<lparr>disconnecting := disconnecting this @ [uuid p],
                     uuid_to_address := ?cache,
                     fs := save pf (Config_new pf ''uuid_to_address'') ?data (fs this)\<rparr>"
  have "connect_callback pf None p this = (Resolve p, ?this')"
    by (rule connect_callback_success [OF assms(1)])
  moreover have "lookup (uuid_to_address ?this') (uuid p) = Resolved a"
    using assms(2) by (simp add: lookup_update)
  moreover have "readFileSync (fs ?this') (configPath (Config_new pf ''uuid_to_address''))
      = Some (JSON_stringify pf ?data)"
    by (simp add: readFileSync_save)
  moreover have "\<forall>k. lookup ?data k =
      (case lookup (uuid_to_address ?this') k of Resolved x \<Rightarrow> Resolved x | _ \<Rightarrow> Absent)"
    by (simp add: lookup_collect)
  ultimately show ?thesis by blast
qed


lemma node_configPath:
  "configPath (Config_new node ''uuid_to_address'') = ''/home/pi/.ibs_th1/uuid_to_address''"
  by (simp add: Config_new_def node_def posix_resolve_def)

theorem resolve_persists_resolved_entries_witness:
  "\<exists>this'.
     connect_callback node None (sensor ''a1'' (Some ''AA:BB:CC:DD:EE:FF'') frame_2150)
       (fresh [(''a1'', None), (''b2'', Some ''11:22:33:44:55:66''), (''c3'', None)])
       = (Resolve (sensor ''a1'' (Some ''AA:BB:CC:DD:EE:FF'') frame_2150), this') \<and>
     uuid_to_address this' =
       [(''a1'', Some ''AA:BB:CC:DD:EE:FF''), (''b2'', Some ''11:22:33:44:55:66''), (''c3'', None)] \<and>
     readFileSync (fs this') ''/home/pi/.ibs_th1/uuid_to_address'' =
       Some (stringify [(''a1'', Some ''AA:BB:CC:DD:EE:FF''), (''b2'', Some ''11:22:33:44:55:66'')])"
proof -
  let ?p = "sensor ''a1'' (Some ''AA:BB:CC:DD:EE:FF'') frame_2150"
  let ?s = "fresh [(''a1'', None), (''b2'', Some ''11:22:33:44:55:66''), (''c3'', None)]"
  have u: "uuid ?p \<noteq> []" and a: "address ?p = Some ''AA:BB:CC:DD:EE:FF''"
    by (simp_all add: sensor_def)
  from resolve_persists_resolved_entries [OF u a, of node ?s]
  obtain this' where c: "connect_callback node None ?p ?s = (Resolve ?p, this')"
    by blast
  have big: "connect_callback node None ?p ?s =
      (Resolve ?p,
       \<lparr>uuid_to_address =
          [(''a1'', Some ''AA:BB:CC:DD:EE:FF''), (''b2'', Some ''11:22:33:44:55:66''), (''c3'', None)],
        connecting = [], disconnecting = [''a1''],
        fs = save node (Config_new node ''uuid_to_address'')
               [(''a1'', Some ''AA:BB:CC:DD:EE:FF''), (''b2'', Some ''11:22:33:44:55:66'')]
               \<lparr>dirs = {}, files = Map.empty\<rparr>\<rparr>)"
    by (simp add: connect_callback_def sensor_def fresh_def js_get_def)
  from c [unfolded big] have e: "this' =
       \<lparr>uuid_to_address =
          [(''a1'', Some ''AA:BB:CC:DD:EE:FF''), (''b2'', Some ''11:22:33:44:55:66''), (''c3'', None)],
        connecting = [], disconnecting = [''a1''],
        fs = save node (Config_new node ''uuid_to_address'')
               [(''a1'', Some ''AA:BB:CC:DD:EE:FF''), (''b2'', Some ''11:22:33:44:55:66'')]
               \<lparr>dirs = {}, files = Map.empty\<rparr>\<rparr>"
    by simp
  have "readFileSync (fs this') ''/home/pi/.ibs_th1/uuid_to_address'' =
       Some (stringify [(''a1'', Some ''AA:BB:CC:DD:EE:FF''), (''b2'', Some ''11:22:33:44:55:66'')])"
    unfolding e using readFileSync_save [of node "Config_new node ''uuid_to_address''"]
    by (simp add: node_configPath) (simp add: node_def)
  with c e show ?thesis by simp
qed

section \<open>A failed handshake\<close>

text \<open>
  Claim C5, evaluated on the code. A valid discovery of the unknown identifier \<open>a1\<close>
  starts a connect; the connect ends with an error; the device is discovered again. The
  callback returns before it reaches the \<open>delete\<close>, so the entry is still \<open>null\<close>, the
  last discovery is dropped as a fetch on flight and no connect is under way: the
  identifier is never resolved. The same holds when the connect succeeds and the
  peripheral has no address: \<open>null\<close> is stored over \<open>null\<close>.
\<close>

theorem failed_connect_stays_pending:
  "(\<exists>this'. run node
       [Discover 10 (sensor ''a1'' None frame_2150),
        ConnectDone (Some ''Error: timeout'') (sensor ''a1'' None frame_2150),
        Discover 20 (sensor ''a1'' None frame_2150)] (fresh []) = Some this' \<and>
      lookup (uuid_to_address this') ''a1'' = Pending \<and> connecting this' = []) \<and>
   (\<exists>this'. run node
       [Discover 10 (sensor ''a1'' None frame_2150),
        ConnectDone None (sensor ''a1'' None frame_2150),
        Discover 20 (sensor ''a1'' None frame_2150)] (fresh []) = Some this' \<and>
      lookup (uuid_to_address this') ''a1'' = Pending \<and> connecting this' = [])"
proof -
  let ?p = "sensor ''a1'' None frame_2150"
  let ?s1 = "(fresh [])\<lparr>uuid_to_address := [(''a1'', None)], connecting := [''a1'']\<rparr>"
  let ?s2 = "(fresh [])\<lparr>uuid_to_address := [(''a1'', None)]\<rparr>"
  have f: "passes_filter ?p" by (rule passes_filter_samples)
  have u: "uuid ?p = ''a1''" "address ?p = None" by (simp_all add: sensor_def)
  have 1: "onDiscover 10 ?p (fresh []) = (Reject ''Discovered => Address fetch started. Ignoring.'', ?s1)"
    using onDiscover_absent [OF f, of "fresh []" 10]
    by (simp add: u lookup_def js_in_def fresh_def)
  have 2: "connect_callback node (Some ''Error: timeout'') ?p ?s2
      = (Reject (Some ''connect result:''), ?s2)"
    by (rule connect_callback_error)
  have 3: "onDiscover 20 ?p s = (Reject ''Discovered => Address fetch on flight. Ignoring.'', s)"
    if "uuid_to_address s = [(''a1'', None)]" for s
    using onDiscover_pending [OF f, of s 20] that
    by (simp add: u lookup_def js_in_def js_get_def)
  have s2: "uuid_to_address ?s2 = [(''a1'', None)]" by simp
  have f1: "fire node (Discover 10 ?p) (fresh []) = Some ?s1"
    by (simp add: discover_listener_def 1)
  have f2: "fire node (ConnectDone (Some ''Error: timeout'') ?p) ?s1 = Some ?s2"
    by (simp add: u connect_callback_error) (simp add: fresh_def)
  have f3: "fire node (Discover 20 ?p) s = Some s" if "uuid_to_address s = [(''a1'', None)]" for s
    by (simp add: discover_listener_def 3 [OF that])
  have a: "run node [Discover 10 ?p, ConnectDone (Some ''Error: timeout'') ?p, Discover 20 ?p] (fresh [])
      = Some ?s2"
    by (simp add: f1 f2 f3 del: fire.simps)
  let ?s3 = "?s2\<lparr>disconnecting := [''a1''],
      fs := save node (Config_new node ''uuid_to_address'') [] (fs ?s2)\<rparr>"
  have s3: "uuid_to_address ?s3 = [(''a1'', None)]" by simp
  have f2': "fire node (ConnectDone None ?p) ?s1 = Some ?s3"
    by (simp add: u connect_callback_def js_get_def) (simp add: fresh_def)
  have b: "run node [Discover 10 ?p, ConnectDone None ?p, Discover 20 ?p] (fresh []) = Some ?s3"
    by (simp add: f1 f2' f3 del: fire.simps)
  show ?thesis
    unfolding a b by (simp add: lookup_def js_in_def js_get_def fresh_def)
qed

section \<open>The life of a cache entry\<close>

lemma onDiscover_cases:
  obtains (filtered) reason where "\<not> passes_filter p" "onDiscover now p this = (Reject reason, this)"
  | (absent) "passes_filter p" "lookup (uuid_to_address this) (uuid p) = Absent"
      "onDiscover now p this =
         (Reject ''Discovered => Address fetch started. Ignoring.'',
          this\<lparr>uuid_to_address := AList.update (uuid p) None (uuid_to_address this),
               connecting := connecting this @ [uuid p]\<rparr>)"
  | (pending) "lookup (uuid_to_address this) (uuid p) = Pending"
      "onDiscover now p this = (Reject ''Discovered => Address fetch on flight. Ignoring.'', this)"
  | (resolved) r where "onDiscover now p this = (Resolve r, this)"
proof (cases "passes_filter p")
  case False
  with onDiscover_filtered [of p now this] filtered show ?thesis by blast
next
  case True
  show ?thesis
  proof (cases "lookup (uuid_to_address this) (uuid p)")
    case Absent
    with True onDiscover_absent [of p this now] absent show ?thesis by blast
  next
    case Pending
    with True onDiscover_pending [of p this now] pending show ?thesis by blast
  next
    case (Resolved a)
    with True onDiscover_Resolve_iff [of now p this this] resolved show ?thesis by blast
  qed
qed

lemma fire_Discover_cases:
  assumes "fire pf (Discover now p) this = Some this'"
  obtains (same) "this' = this"
  | (started) "lookup (uuid_to_address this) (uuid p) = Absent"
      "this' = this\<lparr>uuid_to_address := AList.update (uuid p) None (uuid_to_address this),
                    connecting := connecting this @ [uuid p]\<rparr>"
proof (rule onDiscover_cases [of p now this])
  fix reason assume "onDiscover now p this = (Reject reason, this)"
  with assms same show thesis by (simp add: discover_listener_def)
next
  assume "lookup (uuid_to_address this) (uuid p) = Absent"
    and "onDiscover now p this =
         (Reject ''Discovered => Address fetch started. Ignoring.'',
          this\<lparr>uuid_to_address := AList.update (uuid p) None (uuid_to_address this),
               connecting := connecting this @ [uuid p]\<rparr>)"
  with assms started show thesis by (simp add: discover_listener_def)
next
  assume "onDiscover now p this = (Reject ''Discovered => Address fetch on flight. Ignoring.'', this)"
  with assms same show thesis by (simp add: discover_listener_def)
next
  fix r assume "onDiscover now p this = (Resolve r, this)"
  with assms same show thesis by (simp add: discover_listener_def)
qed

lemma fire_ConnectDone_cases:
  assumes "fire pf (ConnectDone err p) this = Some this'"
  obtains (failed) "uuid p \<in> set (connecting this)"
      "uuid_to_address this' = uuid_to_address this"
      "connecting this' = remove1 (uuid p) (connecting this)"
  | (no_uuid) "uuid p \<in> set (connecting this)"
      "uuid_to_address this' = AList.delete (uuid p) (uuid_to_address this)"
      "connecting this' = remove1 (uuid p) (connecting this)"
  | (stored) "uuid p \<in> set (connecting this)"
      "uuid_to_address this' = AList.update (uuid p) (address p) (uuid_to_address this)"
      "connecting this' = remove1 (uuid p) (connecting this)"
proof (cases err)
  case (Some e)
  with assms failed show ?thesis
    by (auto simp add: connect_callback_error split: if_splits)
next
  case None
  show ?thesis
  proof (cases "uuid p = []")
    case True
    with None assms no_uuid show ?thesis
      by (auto simp add: connect_callback_no_uuid split: if_splits)
  next
    case False
    with None assms stored show ?thesis
      by (auto simp add: connect_callback_success split: if_splits)
  qed
qed

lemma handshakes_pendingI:
  assumes "distinct (connecting this)"
    and "\<And>u. u \<in> set (connecting this) \<Longrightarrow> lookup (uuid_to_address this) u = Pending"
  shows "handshakes_pending this"
  using assms by (simp add: handshakes_pending_def list_all_iff)

lemma handshakes_pendingD:
  assumes "handshakes_pending this"
  shows "distinct (connecting this)"
    and "u \<in> set (connecting this) \<Longrightarrow> lookup (uuid_to_address this) u = Pending"
  using assms by (simp_all add: handshakes_pending_def list_all_iff)

lemma handshakes_pending_fire:
  assumes "handshakes_pending this" and "fire pf e this = Some this'"
  shows "handshakes_pending this'"
proof (cases e)
  case (Discover now p)
  with assms(2) have "fire pf (Discover now p) this = Some this'" by simp
  then show ?thesis
  proof (cases rule: fire_Discover_cases)
    case same
    with assms(1) show ?thesis by simp
  next
    case started
    from started(1) handshakes_pendingD(2) [OF assms(1), of "uuid p"]
    have new: "uuid p \<notin> set (connecting this)" by auto
    show ?thesis
    proof (rule handshakes_pendingI)
      show "distinct (connecting this')"
        using new handshakes_pendingD(1) [OF assms(1)] by (simp add: started(2))
    next
      fix u assume "u \<in> set (connecting this')"
      then have "u = uuid p \<or> u \<in> set (connecting this)"
        by (auto simp add: started(2))
      then show "lookup (uuid_to_address this') u = Pending"
        using handshakes_pendingD(2) [OF assms(1), of u]
        by (auto simp add: started(2) lookup_update)
    qed
  qed
next
  case (ConnectDone err p)
  note d = handshakes_pendingD(1) [OF assms(1)]
  from ConnectDone assms(2) have "fire pf (ConnectDone err p) this = Some this'" by simp
  then have c: "connecting this' = remove1 (uuid p) (connecting this)"
    and t: "uuid_to_address this' = uuid_to_address this \<or>
            uuid_to_address this' = AList.delete (uuid p) (uuid_to_address this) \<or>
            uuid_to_address this' = AList.update (uuid p) (address p) (uuid_to_address this)"
    by (cases rule: fire_ConnectDone_cases; simp)+
  show ?thesis
  proof (rule handshakes_pendingI)
    show "distinct (connecting this')"
      using d by (simp add: c)
  next
    fix u assume "u \<in> set (connecting this')"
    with d have u: "u \<noteq> uuid p" "u \<in> set (connecting this)"
      by (auto simp add: c)
    from u(1) t have "lookup (uuid_to_address this') u = lookup (uuid_to_address this) u"
      by (auto simp add: lookup_update lookup_delete)
    with handshakes_pendingD(2) [OF assms(1) u(2)]
    show "lookup (uuid_to_address this') u = Pending" by simp
  qed
qed

lemma handshakes_pending_run:
  assumes "handshakes_pending this" and "run pf es this = Some this'"
  shows "handshakes_pending this'"
  using assms
proof (induction es arbitrary: this)
  case Nil
  then show ?case by simp
next
  case (Cons e es)
  then show ?case
    by (auto split: option.splits dest: handshakes_pending_fire)
qed

lemma legal_fire:
  assumes "handshakes_pending this" and "fire pf e this = Some this'"
  shows "legal e (lookup (uuid_to_address this) u) (lookup (uuid_to_address this') u)"
proof (cases e)
  case (Discover now p)
  with assms(2) have "fire pf (Discover now p) this = Some this'" by simp
  then show ?thesis
    using Discover by (cases rule: fire_Discover_cases) (auto simp add: lookup_update)
next
  case (ConnectDone err p)
  from assms(1) have pend: "\<And>u. u \<in> set (connecting this) \<Longrightarrow> lookup (uuid_to_address this) u = Pending"
    by (auto simp add: handshakes_pending_def list_all_iff)
  from ConnectDone assms(2) have "fire pf (ConnectDone err p) this = Some this'" by simp
  then show ?thesis
  proof (cases rule: fire_ConnectDone_cases)
    case failed
    with ConnectDone show ?thesis by simp
  next
    case no_uuid
    with ConnectDone pend [of "uuid p"] show ?thesis
      by (auto simp add: lookup_delete)
  next
    case stored
    with ConnectDone pend [of "uuid p"] show ?thesis
      by (auto simp add: lookup_update split: option.splits)
  qed
qed

lemma legal_cases:
  assumes "legal e a b"
  shows "case a of Resolved x \<Rightarrow> b = Resolved x
         | Absent \<Rightarrow> b = Absent \<or> b = Pending
         | Pending \<Rightarrow> True"
  using assms by (cases e; cases a) auto

text \<open>
  Claim C7. In a session that started with no connect under way, every event that
  happens after any sequence of discoveries and connect results moves the entry of every
  scan identifier along the permitted steps only: it stays as it is, a discovery takes
  it from absent to pending, the end of a connect takes it from pending to resolved or
  back to absent. In particular a resolved entry stays resolved with the same address,
  and an absent entry is never resolved in one step.
\<close>

theorem cache_entry_monotone:
  assumes "connecting this0 = []"
    and "run pf es this0 = Some this"
    and "fire pf e this = Some this'"
  shows "legal e (lookup (uuid_to_address this) u) (lookup (uuid_to_address this') u) \<and>
         (case lookup (uuid_to_address this) u of
            Resolved a \<Rightarrow> lookup (uuid_to_address this') u = Resolved a
          | Absent \<Rightarrow> lookup (uuid_to_address this') u = Absent \<or>
                      lookup (uuid_to_address this') u = Pending
          | Pending \<Rightarrow> True)"
proof -
  from assms(1) have "handshakes_pending this0"
    by (simp add: handshakes_pending_def)
  with assms(2) have "handshakes_pending this"
    using handshakes_pending_run by blast
  then have "legal e (lookup (uuid_to_address this) u) (lookup (uuid_to_address this') u)"
    using assms(3) by (rule legal_fire)
  then show ?thesis
    using legal_cases by blast
qed


theorem cache_entry_monotone_witness:
  "\<exists>this this'.
     run node [Discover 10 (sensor ''a1'' None frame_2150)]
       (fresh [(''b2'', Some ''11:22:33:44:55:66'')]) = Some this \<and>
     fire node (ConnectDone None (sensor ''a1'' (Some ''AA:BB:CC:DD:EE:FF'') frame_2150)) this
       = Some this' \<and>
     lookup (uuid_to_address (fresh [(''b2'', Some ''11:22:33:44:55:66'')])) ''a1'' = Absent \<and>
     lookup (uuid_to_address this) ''a1'' = Pending \<and>
     lookup (uuid_to_address this') ''a1'' = Resolved ''AA:BB:CC:DD:EE:FF'' \<and>
     lookup (uuid_to_address this) ''b2'' = Resolved ''11:22:33:44:55:66'' \<and>
     lookup (uuid_to_address this') ''b2'' = Resolved ''11:22:33:44:55:66'' \<and>
     legal (ConnectDone None (sensor ''a1'' (Some ''AA:BB:CC:DD:EE:FF'') frame_2150))
       Pending (Resolved ''AA:BB:CC:DD:EE:FF'')"
proof -
  let ?p = "sensor ''a1'' None frame_2150"
  let ?q = "sensor ''a1'' (Some ''AA:BB:CC:DD:EE:FF'') frame_2150"
  let ?s0 = "fresh [(''b2'', Some ''11:22:33:44:55:66'')]"
  let ?s1 = "?s0\<lparr>uuid_to_address := [(''b2'', Some ''11:22:33:44:55:66''), (''a1'', None)],
                  connecting := [''a1'']\<rparr>"
  have u: "uuid ?p = ''a1''" "uuid ?q = ''a1''" "address ?q = Some ''AA:BB:CC:DD:EE:FF''"
    by (simp_all add: sensor_def)
  have c0: "connecting ?s0 = []" and a0: "lookup (uuid_to_address ?s0) ''a1'' = Absent"
    by (simp_all add: fresh_def lookup_def js_in_def)
  have "onDiscover 10 ?p ?s0 = (Reject ''Discovered => Address fetch started. Ignoring.'', ?s1)"
    using onDiscover_absent [OF passes_filter_samples(1), of ?s0 "''a1''" None 10] a0
    by (simp add: u) (simp add: fresh_def)
  then have r: "run node [Discover 10 ?p] ?s0 = Some ?s1"
    by (simp add: discover_listener_def)
  let ?s1' = "?s0\<lparr>uuid_to_address := [(''b2'', Some ''11:22:33:44:55:66''), (''a1'', None)],
                   connecting := []\<rparr>"
  define this' where "this' = snd (connect_callback node None ?q ?s1')"
  have f: "fire node (ConnectDone None ?q) ?s1 = Some this'"
    unfolding this'_def fire.simps u by simp
  have l1: "lookup (uuid_to_address ?s1) ''a1'' = Pending"
    and l2: "lookup (uuid_to_address ?s1) ''b2'' = Resolved ''11:22:33:44:55:66''"
    by (simp_all add: lookup_def js_in_def js_get_def)
  have "uuid ?q \<noteq> []" by (simp add: u)
  from connect_callback_success [OF this, of node ?s1']
  have "uuid_to_address this' =
      [(''b2'', Some ''11:22:33:44:55:66''), (''a1'', Some ''AA:BB:CC:DD:EE:FF'')]"
    unfolding this'_def u by simp
  then have l3: "lookup (uuid_to_address this') ''a1'' = Resolved ''AA:BB:CC:DD:EE:FF''"
    by (simp add: lookup_def js_in_def js_get_def)
  have g: "legal (ConnectDone None ?q) Pending (Resolved ''AA:BB:CC:DD:EE:FF'')"
    using cache_entry_monotone [OF c0 r f, of "''a1''"] unfolding l1 l3 by (rule conjunct1)
  have l4: "lookup (uuid_to_address this') ''b2'' = Resolved ''11:22:33:44:55:66''"
    using cache_entry_monotone [OF c0 r f, of "''b2''"] unfolding l2
    by (simp only: entry.case)
  from r f a0 l1 l2 l3 l4 g show ?thesis by (intro exI conjI)
qed

section \<open>Persistence\<close>

lemma existsSync_save: "existsSync (save pf cfg data fsys) (configDir cfg)"
  by (auto simp add: save_def existsSync_def writeFileSync_def mkdirSync_def Let_def)

lemma save_idem: "save pf cfg data (save pf cfg data fsys) = save pf cfg data fsys"
proof -
  have "save pf cfg data (save pf cfg data fsys) =
      writeFileSync (configPath cfg) (JSON_stringify pf data) (save pf cfg data fsys)"
    using existsSync_save [of pf cfg data fsys] by (simp add: save_def [of pf cfg data "save _ _ _ _"])
  also have "\<dots> = save pf cfg data fsys"
    by (simp add: save_def writeFileSync_def Let_def)
  finally show ?thesis .
qed

lemma load_failure:
  assumes "readFileSync fsys (configPath cfg) = None \<or>
           (\<exists>text. readFileSync fsys (configPath cfg) = Some text \<and> JSON_parse pf text = None)"
  shows "load pf cfg fsys = ([], save pf cfg [] fsys)"
  using assms by (auto simp add: load_def)

lemma load_after_save:
  assumes "JSON_parse pf (JSON_stringify pf data) = Some data"
  shows "load pf cfg (save pf cfg data fsys) = (data, save pf cfg data fsys)"
  using assms by (simp add: load_def readFileSync_save)

text \<open>
  Claim C8. When \<open>load\<close> cannot read the file or cannot parse it, it returns the empty
  object and has saved the empty object first: the file then holds the JSON text of the
  empty object, and as \<open>JSON.parse\<close> reads that text back as the empty object, the next
  \<open>load\<close> reads and parses it, returns the empty object and writes nothing.
\<close>

theorem load_failure_self_heals:
  assumes "readFileSync fsys (configPath cfg) = None \<or>
           (\<exists>text. readFileSync fsys (configPath cfg) = Some text \<and> JSON_parse pf text = None)"
    and "JSON_parse pf (JSON_stringify pf []) = Some []"
  shows "load pf cfg fsys = ([], save pf cfg [] fsys) \<and>
         readFileSync (save pf cfg [] fsys) (configPath cfg) = Some (JSON_stringify pf []) \<and>
         load pf cfg (save pf cfg [] fsys) = ([], save pf cfg [] fsys)"
  using load_failure [OF assms(1)] load_after_save [OF assms(2)]
  by (simp add: readFileSync_save)

theorem load_failure_self_heals_witness:
  "load node (Config_new node ''uuid_to_address'') \<lparr>dirs = {}, files = Map.empty\<rparr>
     = ([], save node (Config_new node ''uuid_to_address'') [] \<lparr>dirs = {}, files = Map.empty\<rparr>) \<and>
   load node (Config_new node ''uuid_to_address'')
     \<lparr>dirs = {''/home/pi/.ibs_th1''},
      files = [''/home/pi/.ibs_th1/uuid_to_address'' \<mapsto> ''{broken'']\<rparr>
     = ([], \<lparr>dirs = {''/home/pi/.ibs_th1''},
             files = [''/home/pi/.ibs_th1/uuid_to_address'' \<mapsto> ''{}'']\<rparr>) \<and>
   load node (Config_new node ''uuid_to_address'')
     \<lparr>dirs = {''/home/pi/.ibs_th1''},
      files = [''/home/pi/.ibs_th1/uuid_to_address'' \<mapsto> ''{}'']\<rparr>
     = ([], \<lparr>dirs = {''/home/pi/.ibs_th1''},
             files = [''/home/pi/.ibs_th1/uuid_to_address'' \<mapsto> ''{}'']\<rparr>)"
proof -
  let ?cfg = "Config_new node ''uuid_to_address''"
  let ?empty = "\<lparr>dirs = {}, files = Map.empty\<rparr>"
  let ?bad = "\<lparr>dirs = {''/home/pi/.ibs_th1''},
      files = [''/home/pi/.ibs_th1/uuid_to_address'' \<mapsto> ''{broken'']\<rparr>"
  let ?good = "\<lparr>dirs = {''/home/pi/.ibs_th1''},
      files = [''/home/pi/.ibs_th1/uuid_to_address'' \<mapsto> ''{}'']\<rparr>"
  have rt: "JSON_parse node (JSON_stringify node []) = Some []"
    by (simp add: node_def stringify_def parse_def)
  have m: "readFileSync ?empty (configPath ?cfg) = None"
    by (simp add: readFileSync_def)
  have "parse ''{broken'' = None"
    by (simp add: parse_def parse_string_def)
  then have b: "\<exists>text. readFileSync ?bad (configPath ?cfg) = Some text \<and> JSON_parse node text = None"
    by (simp add: readFileSync_def node_configPath) (simp add: node_def)
  have s: "save node ?cfg [] ?bad = ?good"
    by (simp add: save_def existsSync_def writeFileSync_def node_configPath)
       (simp add: Config_new_def node_def posix_resolve_def stringify_def)
  from load_failure_self_heals [of ?empty ?cfg node] m rt
  have 1: "load node ?cfg ?empty = ([], save node ?cfg [] ?empty)"
    by blast
  from load_failure_self_heals [of ?bad ?cfg node] b rt
  have "load node ?cfg ?bad = ([], save node ?cfg [] ?bad)"
    and "load node ?cfg (save node ?cfg [] ?bad) = ([], save node ?cfg [] ?bad)"
    by blast+
  then have 2: "load node ?cfg ?bad = ([], ?good)" and 3: "load node ?cfg ?good = ([], ?good)"
    unfolding s by simp_all
  from 1 2 3 show ?thesis by (intro conjI)
qed

text \<open>
  Claim C9. For every object, \<open>save\<close> followed by \<open>load\<close> returns the object that was
  saved, given that \<open>JSON.parse\<close> reads the text of \<open>JSON.stringify\<close> back as that
  object; and saving the same object a second time leaves the store as the first save
  left it, the file holding the same text.
\<close>

theorem save_load_roundtrip:
  assumes "JSON_parse pf (JSON_stringify pf data) = Some data"
  shows "load pf cfg (save pf cfg data fsys) = (data, save pf cfg data fsys) \<and>
         save pf cfg data (save pf cfg data fsys) = save pf cfg data fsys \<and>
         readFileSync (save pf cfg data fsys) (configPath cfg) = Some (JSON_stringify pf data) \<and>
         readFileSync (save pf cfg data (save pf cfg data fsys)) (configPath cfg)
           = Some (JSON_stringify pf data)"
  using load_after_save [OF assms] by (simp add: save_idem readFileSync_save)

theorem save_load_roundtrip_witness:
  "load node (Config_new node ''uuid_to_address'')
     (save node (Config_new node ''uuid_to_address'')
        [(''a1'', Some ''AA:BB:CC:DD:EE:FF''), (''b2'', Some ''11:22:33:44:55:66'')]
        \<lparr>dirs = {}, files = Map.empty\<rparr>)
     = ([(''a1'', Some ''AA:BB:CC:DD:EE:FF''), (''b2'', Some ''11:22:33:44:55:66'')],
        save node (Config_new node ''uuid_to_address'')
          [(''a1'', Some ''AA:BB:CC:DD:EE:FF''), (''b2'', Some ''11:22:33:44:55:66'')]
          \<lparr>dirs = {}, files = Map.empty\<rparr>)"
proof -
  have "parse (stringify [(''a1'', Some ''AA:BB:CC:DD:EE:FF''), (''b2'', Some ''11:22:33:44:55:66'')])
      = Some [(''a1'', Some ''AA:BB:CC:DD:EE:FF''), (''b2'', Some ''11:22:33:44:55:66'')]"
    by code_simp
  then have "JSON_parse node (JSON_stringify node
        [(''a1'', Some ''AA:BB:CC:DD:EE:FF''), (''b2'', Some ''11:22:33:44:55:66'')])
      = Some [(''a1'', Some ''AA:BB:CC:DD:EE:FF''), (''b2'', Some ''11:22:33:44:55:66'')]"
    by (simp add: node_def)
  from save_load_roundtrip [OF this] show ?thesis
    by (rule conjunct1)
qed

section \<open>The JSON text of the concrete platform\<close>

text \<open>
  On the concrete platform the hypothesis of the round trip holds for every object with
  distinct keys: \<open>parse\<close> reads the text that \<open>stringify\<close> writes back as the same
  object, whatever characters the keys and the addresses contain.
\<close>

lemma hex_value_hex_digit: "n < 16 \<Longrightarrow> hex_value (hex_digit n) = Some n"
  by (auto simp add: hex_value_def hex_digit_def Let_def)

lemma hex_value_zero: "hex_value CHR ''0'' = Some 0"
  by (simp add: hex_value_def)

lemma scan_quote_char:
  "scan_string Plain acc (quote_char c @ rest) = scan_string Plain (c # acc) rest"
proof (cases "c = CHR 0x08 \<or> c = CHR 0x09 \<or> c = CHR 0x0A \<or> c = CHR 0x0C \<or> c = CHR 0x0D
                \<or> c = CHR 0x22 \<or> c = CHR 0x5C")
  case True
  then show ?thesis
    by (auto simp add: quote_char_def unescape_def)
next
  case False
  show ?thesis
  proof (cases "(of_char c :: nat) < 32")
    case True
    then have d: "(of_char c :: nat) div 16 < 16" "(of_char c :: nat) mod 16 < 16"
      and v: "16 * ((of_char c :: nat) div 16) + of_char c mod 16 = of_char c"
      by simp_all
    from True False show ?thesis
      by (simp add: quote_char_def hex_value_hex_digit d v hex_value_zero)
  next
    case False
    with \<open>\<not> (c = CHR 0x08 \<or> _)\<close> show ?thesis
      by (simp add: quote_char_def)
  qed
qed

lemma scan_quoted:
  "scan_string Plain acc (concat (map quote_char s) @ CHR 0x22 # rest) = Some (rev acc @ s, rest)"
proof (induction s arbitrary: acc)
  case Nil
  show ?case by simp
next
  case (Cons c s)
  show ?case
    using scan_quote_char [of acc c "concat (map quote_char s) @ CHR 0x22 # rest"] Cons [of "c # acc"]
    by simp
qed

lemma parse_string_quote: "parse_string (quote s @ rest) = Some (s, rest)"
  using scan_quoted [of "[]" s rest] by (simp add: parse_string_def quote_def)

lemma parse_value_stringify_value:
  "parse_value (stringify_value v @ rest) = Some (v, rest)"
proof (cases v)
  case None
  then show ?thesis by (simp add: parse_value_def stringify_value_def)
next
  case (Some s)
  have "take 4 (quote s @ rest) \<noteq> ''null''"
    by (simp add: quote_def)
  with Some show ?thesis
    by (simp add: parse_value_def stringify_value_def parse_string_quote)
qed


lemma parse_members_stringify_members:
  assumes "d \<noteq> []" and "length d \<le> n"
  shows "parse_members n obj (stringify_members d @ ''}'')
           = Some (foldl (\<lambda>obj (k, v). AList.update k v obj) obj d)"
  using assms
proof (induction d arbitrary: n obj rule: stringify_members.induct)
  case 1
  then show ?case by simp
next
  case (2 k v)
  then obtain m where n: "n = Suc m" by (cases n) auto
  show ?case
    using parse_string_quote [of k "'':'' @ stringify_value v @ ''}''"]
      parse_value_stringify_value [of v "''}''"]
    by (simp add: n)
next
  case (3 k v kv d)
  then obtain m where n: "n = Suc m" and m: "length (kv # d) \<le> m" by (cases n) auto
  let ?rest = "'','' @ stringify_members (kv # d) @ ''}''"
  have "parse_members m (AList.update k v obj) (stringify_members (kv # d) @ ''}'')
      = Some (foldl (\<lambda>obj (k, v). AList.update k v obj) (AList.update k v obj) (kv # d))"
    using 3(1) [OF _ m] by simp
  then show ?case
    using parse_string_quote [of k "'':'' @ stringify_value v @ ?rest"]
      parse_value_stringify_value [of v ?rest]
    by (simp add: n)
qed

lemma update_fresh_key: "k \<notin> fst ` set al \<Longrightarrow> AList.update k v al = al @ [(k, v)]"
  by (induction al) auto

lemma foldl_update_distinct:
  "distinct (map fst (obj @ d)) \<Longrightarrow>
     foldl (\<lambda>obj (k, v). AList.update k v obj) obj d = obj @ d"
proof (induction d arbitrary: obj)
  case Nil
  show ?case by simp
next
  case (Cons kv d)
  obtain k v where kv: "kv = (k, v)" by (cases kv)
  from Cons.prems have "k \<notin> fst ` set obj"
    by (auto simp add: kv)
  then have "AList.update k v obj = obj @ [(k, v)]"
    by (rule update_fresh_key)
  with Cons.IH [of "obj @ [(k, v)]"] Cons.prems show ?case
    by (simp add: kv)
qed

lemma length_stringify_members: "length d \<le> length (stringify_members d)"
  by (induction d rule: stringify_members.induct) (simp_all add: quote_def)

lemma stringify_members_starts_with_quote:
  "d \<noteq> [] \<Longrightarrow> \<exists>t. stringify_members d = CHR 0x22 # t"
  by (induction d rule: stringify_members.induct) (simp_all add: quote_def)

lemma parse_stringify:
  assumes "distinct (map fst d)"
  shows "parse (stringify d) = Some d"
proof (cases "d = []")
  case True
  then show ?thesis by (simp add: parse_def stringify_def)
next
  case False
  then obtain t where t: "stringify_members d = CHR 0x22 # t"
    using stringify_members_starts_with_quote by blast
  have "length d \<le> length (stringify d)"
    using length_stringify_members [of d] by (simp add: stringify_def)
  from parse_members_stringify_members [OF False this, of "[]"]
  have "parse_members (length (stringify d)) [] (stringify_members d @ ''}'') = Some d"
    using assms by (simp add: foldl_update_distinct)
  then show ?thesis
    by (simp add: parse_def stringify_def t)
qed

corollary node_save_load:
  assumes "distinct (map fst data)"
  shows "load node cfg (save node cfg data fsys) = (data, save node cfg data fsys)"
proof -
  have "JSON_parse node (JSON_stringify node data) = Some data"
    using parse_stringify [OF assms] by (simp add: node_def)
  then show ?thesis by (rule load_after_save)
qed

lemma IBS_TH1_new_connecting: "connecting (IBS_TH1_new pf fsys) = []"
  by (simp add: IBS_TH1_new_def split: prod.splits)

end
